theory Spec2Isabelle
  imports Complex_Main "HOL-Library.Sublist"
begin

section \<open>Values, errors and characters\<close>

text \<open>
  The cleaning core of \<^verbatim>\<open>scripts/clean_compile.py\<close>. A Python \<^verbatim>\<open>str\<close> is a
  sequence of code points; the model covers the code points below 256 (ASCII and the
  Latin-1 block), one \<^typ>\<open>char\<close> each, so \<^const>\<open>length\<close> is Python's \<^verbatim>\<open>len\<close>.
  The values \<^verbatim>\<open>json.load\<close> produces are the type \<open>pyval\<close>: \<^verbatim>\<open>int\<close> and finite
  \<^verbatim>\<open>float\<close> values are one constructor carrying the number, since the program only
  tests them for being a string, for having a length and for equality as dictionary keys
  (where \<^verbatim>\<open>1\<close> and \<^verbatim>\<open>1.0\<close> are equal).
  A record is a \<^verbatim>\<open>dict\<close> with string keys, a map. Every exception the code can
  raise is a value of \<open>py_error\<close>.
\<close>

datatype py_error = KeyError | AttributeError | TypeError | ZeroDivisionError

datatype pyval =
    PNone
  | PBool bool
  | PNum rat
  | PStr string
  | PList "pyval list"
  | PDict "(string \<times> pyval) list"

type_synonym post = "string \<rightharpoonup> pyval"

definition NL :: char where
  "NL = CHR 0x0A"

definition TAB :: char where
  "TAB = CHR 0x09"

definition BACKSLASH :: char where
  "BACKSLASH = CHR 0x5C"

definition code_point :: "char \<Rightarrow> nat" where
  "code_point c = of_char c"

definition in_range :: "char \<Rightarrow> char \<Rightarrow> char \<Rightarrow> bool" where
  "in_range lo hi c = (code_point lo \<le> code_point c \<and> code_point c \<le> code_point hi)"

text \<open>\<^verbatim>\<open>str.isspace\<close>, which is also \<^verbatim>\<open>\s\<close> of a \<^verbatim>\<open>str\<close> pattern and what
  \<^verbatim>\<open>str.strip()\<close> removes: U+0009..U+000D, U+001C..U+0020, U+0085, U+00A0.\<close>

definition is_space :: "char \<Rightarrow> bool" where
  "is_space c = (in_range (CHR 0x09) (CHR 0x0D) c \<or> in_range (CHR 0x1C) (CHR 0x20) c
                 \<or> c = CHR 0x85 \<or> c = CHR 0xA0)"

text \<open>\<^verbatim>\<open>\w\<close> of a \<^verbatim>\<open>str\<close> pattern: alphanumeric (\<^verbatim>\<open>str.isalnum\<close>) or the
  underscore. Below 256 the alphanumerics are the ASCII letters and digits, the letters
  U+00AA, U+00B5, U+00BA, U+00C0..U+00D6, U+00D8..U+00F6, U+00F8..U+00FF, and the
  numeric characters U+00B2, U+00B3, U+00B9, U+00BC..U+00BE.\<close>

definition is_word :: "char \<Rightarrow> bool" where
  "is_word c = (in_range CHR ''a'' CHR ''z'' c \<or> in_range CHR ''A'' CHR ''Z'' c
                \<or> in_range CHR ''0'' CHR ''9'' c \<or> c = CHR ''_''
                \<or> c = CHR 0xAA \<or> c = CHR 0xB5 \<or> c = CHR 0xBA
                \<or> in_range (CHR 0xC0) (CHR 0xD6) c \<or> in_range (CHR 0xD8) (CHR 0xF6) c
                \<or> in_range (CHR 0xF8) (CHR 0xFF) c
                \<or> c = CHR 0xB2 \<or> c = CHR 0xB3 \<or> c = CHR 0xB9
                \<or> in_range (CHR 0xBC) (CHR 0xBE) c)"

text \<open>\<^verbatim>\<open>str.lower()\<close>: below 256 the cased capitals are A..Z, U+00C0..U+00D6 and
  U+00D8..U+00DE, each 32 below its small letter.\<close>

definition lower_char :: "char \<Rightarrow> char" where
  "lower_char c =
     (if in_range CHR ''A'' CHR ''Z'' c \<or> in_range (CHR 0xC0) (CHR 0xD6) c
         \<or> in_range (CHR 0xD8) (CHR 0xDE) c
      then char_of (code_point c + 32) else c)"

definition py_lower :: "string \<Rightarrow> string" where
  "py_lower s = map lower_char s"

definition py_strip :: "string \<Rightarrow> string" where
  "py_strip s = rev (dropWhile is_space (rev (dropWhile is_space s)))"

text \<open>The operator \<^verbatim>\<open>needle in haystack\<close> on strings.\<close>

fun py_in :: "string \<Rightarrow> string \<Rightarrow> bool" where
  "py_in needle [] = (needle = [])"
| "py_in needle (c # cs) = (prefix needle (c # cs) \<or> py_in needle cs)"

text \<open>\<^verbatim>\<open>d.get(key, default)\<close>.\<close>

definition py_get :: "post \<Rightarrow> string \<Rightarrow> pyval \<Rightarrow> pyval" where
  "py_get d k dflt = (case d k of None \<Rightarrow> dflt | Some v \<Rightarrow> v)"

text \<open>\<^verbatim>\<open>d[key]\<close>.\<close>

definition py_item :: "post \<Rightarrow> string \<Rightarrow> py_error + pyval" where
  "py_item d k = (case d k of None \<Rightarrow> Inl KeyError | Some v \<Rightarrow> Inr v)"

text \<open>Truth value of a value under \<^verbatim>\<open>not\<close>, and \<^verbatim>\<open>isinstance(v, str)\<close>.\<close>

fun truthy :: "pyval \<Rightarrow> bool" where
  "truthy PNone = False"
| "truthy (PBool b) = b"
| "truthy (PNum n) = (n \<noteq> 0)"
| "truthy (PStr s) = (s \<noteq> [])"
| "truthy (PList xs) = (xs \<noteq> [])"
| "truthy (PDict kvs) = (kvs \<noteq> [])"

fun isinstance_str :: "pyval \<Rightarrow> bool" where
  "isinstance_str (PStr s) = True"
| "isinstance_str v = False"

text \<open>\<^verbatim>\<open>v.strip()\<close> and \<^verbatim>\<open>v.lower()\<close> exist on strings only; on any other value
  the attribute lookup raises.\<close>

fun strip_method :: "pyval \<Rightarrow> py_error + string" where
  "strip_method (PStr s) = Inr (py_strip s)"
| "strip_method v = Inl AttributeError"

fun lower_method :: "pyval \<Rightarrow> py_error + string" where
  "lower_method (PStr s) = Inr (py_lower s)"
| "lower_method v = Inl AttributeError"

section \<open>Regular-expression substitution\<close>

text \<open>
  \<^verbatim>\<open>re.sub(pattern, repl, text)\<close> scans \<open>text\<close> from the left; at each position it
  tries the pattern, and on a match emits the replacement and resumes after the match,
  otherwise copies one character. A pattern is given by its matcher: applied to the
  rest of the text, it returns the replacement (with the groups filled in) and the text
  after the match, as the backtracking engine finds them. No pattern of this program
  matches the empty string; the last branch (a match that consumes nothing copies one
  character on) only makes the scan total.
\<close>

type_synonym matcher = "string \<Rightarrow> (string \<times> string) option"

fun re_sub :: "matcher \<Rightarrow> string \<Rightarrow> string" where
  "re_sub m [] = []"
| "re_sub m (c # cs) =
     (case m (c # cs) of
        None \<Rightarrow> c # re_sub m cs
      | Some (repl, rest) \<Rightarrow>
          if length rest \<le> length cs then repl @ re_sub m rest
          else repl @ c # re_sub m cs)"

text \<open>A literal at the start of the text: the text after it.\<close>

fun literal :: "string \<Rightarrow> string \<Rightarrow> string option" where
  "literal [] s = Some s"
| "literal (p # ps) [] = None"
| "literal (p # ps) (c # cs) = (if p = c then literal ps cs else None)"

subsection \<open>The URL patterns\<close>

text \<open>
  One repetition of the group
  \<^verbatim>\<open>(?:[a-zA-Z]|[0-9]|[$-_@.&+]|[!*\\(\\),]|(?:%[0-9a-fA-F][0-9a-fA-F]))\<close>,
  the alternatives tried in order. In the third class \<^verbatim>\<open>$-_\<close> is a range, from
  U+0024 to U+005F.
\<close>

definition hex_digit :: "char \<Rightarrow> bool" where
  "hex_digit c = (in_range CHR ''0'' CHR ''9'' c \<or> in_range CHR ''a'' CHR ''f'' c
                  \<or> in_range CHR ''A'' CHR ''F'' c)"

fun url_unit :: "string \<Rightarrow> string option" where
  "url_unit [] = None"
| "url_unit (c # cs) =
     (if in_range CHR ''a'' CHR ''z'' c \<or> in_range CHR ''A'' CHR ''Z'' c then Some cs
      else if in_range CHR ''0'' CHR ''9'' c then Some cs
      else if in_range CHR ''$'' CHR ''_'' c \<or> c \<in> set ''@.&+'' then Some cs
      else if c \<in> set ''!*(),'' \<or> c = BACKSLASH then Some cs
      else if c = CHR ''%'' then
        (case cs of
           h1 # h2 # rest \<Rightarrow> if hex_digit h1 \<and> hex_digit h2 then Some rest else None
         | _ \<Rightarrow> None)
      else None)"

text \<open>The group under \<^verbatim>\<open>+\<close>, greedy, with nothing after it in the pattern: repeat
  while a repetition matches; at least one is needed.\<close>

function url_star :: "string \<Rightarrow> string" where
  "url_star s = (case url_unit s of None \<Rightarrow> s | Some rest \<Rightarrow> url_star rest)"
  by pat_completeness auto

termination url_star
proof (relation "measure length")
  show "wf (measure length)"
    by simp
next
  fix s rest :: string
  assume "url_unit s = Some rest"
  then show "(rest, s) \<in> measure length"
    by (cases s) (auto split: if_splits list.splits)
qed

declare url_star.simps [simp del]

definition url_plus :: "string \<Rightarrow> string option" where
  "url_plus s = (case url_unit s of None \<Rightarrow> None | Some rest \<Rightarrow> Some (url_star rest))"

text \<open>\<^verbatim>\<open>http[s]?://\<close> followed by the group: the optional \<^verbatim>\<open>s\<close> is taken when it
  is there, and given back when the rest of the pattern then fails.\<close>

definition url_tail :: "string \<Rightarrow> string option" where
  "url_tail s = (case literal ''://'' s of None \<Rightarrow> None | Some r \<Rightarrow> url_plus r)"

definition m_http :: matcher where
  "m_http s =
     (case literal ''http'' s of
        None \<Rightarrow> None
      | Some r \<Rightarrow>
          (case (case literal ''s'' r of
                   Some r' \<Rightarrow> (case url_tail r' of Some rest \<Rightarrow> Some rest | None \<Rightarrow> url_tail r)
                 | None \<Rightarrow> url_tail r) of
             None \<Rightarrow> None
           | Some rest \<Rightarrow> Some ([], rest)))"

text \<open>\<^verbatim>\<open>www\.\<close> followed by the group.\<close>

definition m_www :: matcher where
  "m_www s =
     (case literal ''www.'' s of
        None \<Rightarrow> None
      | Some r \<Rightarrow> (case url_plus r of None \<Rightarrow> None | Some rest \<Rightarrow> Some ([], rest)))"

subsection \<open>The emphasis patterns\<close>

text \<open>
  \<^verbatim>\<open>\*\*([^*]+)\*\*\<close>, \<^verbatim>\<open>\*([^*]+)\*\<close> and \<^verbatim>\<open>~~([^~]+)~~\<close>, each replaced by its
  group: the delimiter, the longest run of characters other than the delimiter's
  (a shorter run is followed by a character of the run, never by the delimiter, so
  backtracking finds nothing more), which must not be empty, and the delimiter again.
\<close>

definition m_emph :: "string \<Rightarrow> char \<Rightarrow> matcher" where
  "m_emph delim x s =
     (case literal delim s of
        None \<Rightarrow> None
      | Some r \<Rightarrow>
          (let inner = takeWhile (\<lambda>c. c \<noteq> x) r; after = dropWhile (\<lambda>c. c \<noteq> x) r
           in if inner = [] then None
              else (case literal delim after of
                      None \<Rightarrow> None
                    | Some rest \<Rightarrow> Some (inner, rest))))"

definition m_bold :: matcher where
  "m_bold = m_emph ''**'' CHR ''*''"

definition m_italic :: matcher where
  "m_italic = m_emph ''*'' CHR ''*''"

definition m_strike :: matcher where
  "m_strike = m_emph ''~~'' CHR ''~''"

subsection \<open>The whitespace patterns\<close>

text \<open>
  \<^verbatim>\<open>\n\s*\n\<close>: after the first newline \<^verbatim>\<open>\s*\<close> takes the whole run of whitespace,
  \<open>k\<close> characters, and gives characters back one at a time until a newline follows.
\<close>

fun backtrack_nl :: "nat \<Rightarrow> string \<Rightarrow> string option" where
  "backtrack_nl 0 r = literal [NL] r"
| "backtrack_nl (Suc k) r =
     (case literal [NL] (drop (Suc k) r) of
        Some rest \<Rightarrow> Some rest
      | None \<Rightarrow> backtrack_nl k r)"

definition m_blank_lines :: matcher where
  "m_blank_lines s =
     (case literal [NL] s of
        None \<Rightarrow> None
      | Some r \<Rightarrow>
          (case backtrack_nl (length (takeWhile is_space r)) r of
             None \<Rightarrow> None
           | Some rest \<Rightarrow> Some ([NL], rest)))"

text \<open>\<^verbatim>\<open>[ \t]+\<close>, replaced by one space.\<close>

definition blank :: "char \<Rightarrow> bool" where
  "blank c = (c = CHR '' '' \<or> c = TAB)"

definition m_blanks :: matcher where
  "m_blanks s =
     (case s of
        [] \<Rightarrow> None
      | c # r \<Rightarrow> if blank c then Some ('' '', dropWhile blank r) else None)"

text \<open>\<^verbatim>\<open>[^\w\s]\<close>, deleted, and \<^verbatim>\<open>\s+\<close>, replaced by one space.\<close>

definition m_punct :: matcher where
  "m_punct s =
     (case s of
        [] \<Rightarrow> None
      | c # r \<Rightarrow> if \<not> is_word c \<and> \<not> is_space c then Some ([], r) else None)"

definition m_spaces :: matcher where
  "m_spaces s =
     (case s of
        [] \<Rightarrow> None
      | c # r \<Rightarrow> if is_space c then Some ('' '', dropWhile is_space r) else None)"

section \<open>The program\<close>

definition MIN_BODY_LEN :: int where
  "MIN_BODY_LEN = 5"

definition DELETED_MARKERS :: "string list" where
  "DELETED_MARKERS =
     [''[deleted]'', ''[removed]'', ''[removed by reddit]'', ''[deleted by user]'',
      ''**removed**'', ''**deleted**'']"

definition clean_string :: "string \<Rightarrow> string" where
  "clean_string s =
     py_strip (re_sub m_blanks (re_sub m_blank_lines
       (re_sub m_strike (re_sub m_italic (re_sub m_bold
         (re_sub m_www (re_sub m_http s)))))))"

definition clean_text :: "pyval \<Rightarrow> string" where
  "clean_text text =
     (if \<not> truthy text \<or> \<not> isinstance_str text then []
      else (case text of PStr s \<Rightarrow> clean_string s | _ \<Rightarrow> []))"

definition is_valid_post :: "post \<Rightarrow> int \<Rightarrow> py_error + bool" where
  "is_valid_post post min_length =
     (case strip_method (py_get post ''body'' (PStr [])) of
        Inl e \<Rightarrow> Inl e
      | Inr body \<Rightarrow>
          (case strip_method (py_get post ''title'' (PStr [])) of
             Inl e \<Rightarrow> Inl e
           | Inr title \<Rightarrow>
               Inr (if list_ex (\<lambda>marker. py_in marker (py_lower body)) DELETED_MARKERS
                    then False
                    else if int (length body) < min_length then False
                    else if title = [] then False
                    else True)))"

definition normalize_title :: "pyval \<Rightarrow> py_error + string" where
  "normalize_title title =
     (case lower_method title of
        Inl e \<Rightarrow> Inl e
      | Inr normalized \<Rightarrow> Inr (py_strip (re_sub m_spaces (re_sub m_punct normalized))))"

definition process_post :: "post \<Rightarrow> py_error + post option" where
  "process_post post =
     (let cleaned_post =
            [''subreddit'' \<mapsto> py_get post ''subreddit'' (PStr ''unknown''),
             ''title'' \<mapsto> PStr (clean_text (py_get post ''title'' (PStr []))),
             ''body'' \<mapsto> PStr (clean_text (py_get post ''body'' (PStr [])))];
          temp_post = cleaned_post
      in case is_valid_post temp_post MIN_BODY_LEN of
           Inl e \<Rightarrow> Inl e
         | Inr ok \<Rightarrow> if \<not> ok then Inr None else Inr (Some cleaned_post))"

text \<open>The loop of \<^verbatim>\<open>deduplicate_posts\<close>: its three variables are passed along.
  \<open>post_fingerprint\<close> is the expression \<^verbatim>\<open>normalize_title(post['title'])\<close>.\<close>

definition post_fingerprint :: "post \<Rightarrow> py_error + string" where
  "post_fingerprint post =
     (case py_item post ''title'' of Inl e \<Rightarrow> Inl e | Inr title \<Rightarrow> normalize_title title)"

fun dedup_loop ::
  "post list \<Rightarrow> string set \<Rightarrow> post list \<Rightarrow> int \<Rightarrow> py_error + (post list \<times> int)" where
  "dedup_loop [] seen_titles unique_posts duplicates = Inr (unique_posts, duplicates)"
| "dedup_loop (post # posts) seen_titles unique_posts duplicates =
     (case post_fingerprint post of
        Inl e \<Rightarrow> Inl e
      | Inr normalized \<Rightarrow>
          if normalized \<notin> seen_titles
          then dedup_loop posts (insert normalized seen_titles) (unique_posts @ [post]) duplicates
          else dedup_loop posts seen_titles unique_posts (duplicates + 1))"

definition deduplicate_posts :: "post list \<Rightarrow> py_error + (post list \<times> int)" where
  "deduplicate_posts posts = dedup_loop posts {} [] 0"

subsection \<open>Statistics\<close>

text \<open>\<^verbatim>\<open>len(v)\<close>: strings, lists and dicts have a length (a dict's is the number of its
  keys); anything else raises.\<close>

fun py_len :: "pyval \<Rightarrow> py_error + int" where
  "py_len (PStr s) = Inr (int (length s))"
| "py_len (PList xs) = Inr (int (length xs))"
| "py_len (PDict kvs) = Inr (int (length (remdups (map fst kvs))))"
| "py_len v = Inl TypeError"

text \<open>A value used as a dictionary key: lists and dicts are unhashable and raise.
  Two keys are the same entry when they are equal, and \<^verbatim>\<open>True\<close> and \<^verbatim>\<open>False\<close>
  are equal to \<^verbatim>\<open>1\<close> and \<^verbatim>\<open>0\<close>; the entry keeps the key it was first stored
  under.\<close>

fun dict_key :: "pyval \<Rightarrow> py_error + pyval" where
  "dict_key (PList xs) = Inl TypeError"
| "dict_key (PDict kvs) = Inl TypeError"
| "dict_key v = Inr v"

fun key_value :: "pyval \<Rightarrow> pyval" where
  "key_value (PBool b) = PNum (if b then 1 else 0)"
| "key_value v = v"

definition key_eq :: "pyval \<Rightarrow> pyval \<Rightarrow> bool" where
  "key_eq a b = (key_value a = key_value b)"

text \<open>The numbers the statistics hold: an integer, or the \<^verbatim>\<open>float\<close> that
  \<^verbatim>\<open>a / b\<close> returns on integers, the quotient rounded to the nearest double. The
  model keeps the two operands and says nothing about the rounded value.\<close>

datatype pynumber = PyInt int | PyQuotient int int

definition py_truediv :: "int \<Rightarrow> int \<Rightarrow> py_error + pynumber" where
  "py_truediv a b = (if b = 0 then Inl ZeroDivisionError else Inr (PyQuotient a b))"

record group_acc =
  count :: int
  total_length :: int

record group_stats = group_acc +
  avg_length :: pynumber

record corpus_stats =
  total_posts :: int
  avg_body_length :: pynumber
  subreddit_stats :: "(pyval \<times> group_stats) list"

text \<open>\<^verbatim>\<open>sum(len(p['body']) for p in posts)\<close>.\<close>

fun sum_body_lengths :: "post list \<Rightarrow> py_error + int" where
  "sum_body_lengths [] = Inr 0"
| "sum_body_lengths (p # ps) =
     (case py_item p ''body'' of
        Inl e \<Rightarrow> Inl e
      | Inr body \<Rightarrow>
          (case py_len body of
             Inl e \<Rightarrow> Inl e
           | Inr n \<Rightarrow>
               (case sum_body_lengths ps of Inl e \<Rightarrow> Inl e | Inr m \<Rightarrow> Inr (n + m))))"

text \<open>The \<^verbatim>\<open>defaultdict\<close>, in insertion order: indexing a key that is not there
  first stores \<^verbatim>\<open>{'count': 0, 'total_length': 0}\<close> under it; then the entry is
  updated.\<close>

fun upd_group ::
  "pyval \<Rightarrow> (group_acc \<Rightarrow> group_acc) \<Rightarrow> (pyval \<times> group_acc) list \<Rightarrow> (pyval \<times> group_acc) list" where
  "upd_group sub f [] = [(sub, f \<lparr>count = 0, total_length = 0\<rparr>)]"
| "upd_group sub f ((k, st) # rest) =
     (if key_eq k sub then (k, f st) # rest else (k, st) # upd_group sub f rest)"

fun stats_loop ::
  "post list \<Rightarrow> (pyval \<times> group_acc) list \<Rightarrow> py_error + (pyval \<times> group_acc) list" where
  "stats_loop [] groups = Inr groups"
| "stats_loop (post # posts) groups =
     (case py_item post ''subreddit'' of
        Inl e \<Rightarrow> Inl e
      | Inr sub \<Rightarrow>
          (case dict_key sub of
             Inl e \<Rightarrow> Inl e
           | Inr k \<Rightarrow>
               (let groups1 = upd_group k (\<lambda>st. st\<lparr>count := count st + 1\<rparr>) groups
                in case py_item post ''body'' of
                     Inl e \<Rightarrow> Inl e
                   | Inr body \<Rightarrow>
                       (case py_len body of
                          Inl e \<Rightarrow> Inl e
                        | Inr n \<Rightarrow>
                            stats_loop posts
                              (upd_group k (\<lambda>st. st\<lparr>total_length := total_length st + n\<rparr>)
                                 groups1)))))"

text \<open>The second loop: \<^verbatim>\<open>stats['avg_length'] = stats['total_length'] / stats['count']\<close>.\<close>

fun add_averages :: "(pyval \<times> group_acc) list \<Rightarrow> py_error + (pyval \<times> group_stats) list" where
  "add_averages [] = Inr []"
| "add_averages ((sub, st) # rest) =
     (case py_truediv (total_length st) (count st) of
        Inl e \<Rightarrow> Inl e
      | Inr avg \<Rightarrow>
          (case add_averages rest of
             Inl e \<Rightarrow> Inl e
           | Inr others \<Rightarrow>
               Inr ((sub, \<lparr>count = count st, total_length = total_length st,
                          avg_length = avg\<rparr>) # others)))"

text \<open>The result \<^verbatim>\<open>{}\<close> for no posts is \<open>None\<close>.\<close>

definition calculate_stats :: "post list \<Rightarrow> py_error + corpus_stats option" where
  "calculate_stats posts =
     (if posts = [] then Inr None
      else
        (let n_posts = int (length posts)
         in case sum_body_lengths posts of
              Inl e \<Rightarrow> Inl e
            | Inr total_body_length \<Rightarrow>
                (case (if n_posts > 0 then py_truediv total_body_length n_posts else Inr (PyInt 0)) of
                   Inl e \<Rightarrow> Inl e
                 | Inr avg \<Rightarrow>
                     (case stats_loop posts [] of
                        Inl e \<Rightarrow> Inl e
                      | Inr groups \<Rightarrow>
                          (case add_averages groups of
                             Inl e \<Rightarrow> Inl e
                           | Inr per_group \<Rightarrow>
                               Inr (Some \<lparr>total_posts = n_posts, avg_body_length = avg,
                                          subreddit_stats = per_group\<rparr>))))))"

section \<open>Statistics: errors and the division guard\<close>

lemma sum_body_lengths_error:
  "sum_body_lengths posts = Inl e \<Longrightarrow> e = KeyError \<or> e = TypeError"
proof (induction posts)
  case Nil
  then show ?case by simp
next
  case (Cons p ps)
  have len: "\<And>v e'. py_len v = Inl e' \<Longrightarrow> e' = TypeError"
    subgoal for v e' by (cases v) auto
    done
  from Cons show ?case
    by (auto simp: py_item_def split: sum.splits option.splits dest: len)
qed

lemma py_len_error: "py_len v = Inl e \<Longrightarrow> e = TypeError"
  by (cases v) auto

lemma dict_key_error: "dict_key v = Inl e \<Longrightarrow> e = TypeError"
  by (cases v) auto

lemma py_item_error: "py_item d k = Inl e \<Longrightarrow> e = KeyError"
  by (auto simp: py_item_def split: option.splits)

lemma stats_loop_error:
  "stats_loop posts groups = Inl e \<Longrightarrow> e = KeyError \<or> e = TypeError"
proof (induction posts arbitrary: groups)
  case Nil
  then show ?case by simp
next
  case (Cons p ps)
  then show ?case
    by (auto simp: Let_def split: sum.splits dest: py_len_error dict_key_error py_item_error)
qed

lemma upd_group_has_key: "list_ex (\<lambda>(k, st). key_eq k sub) (upd_group sub f groups)"
  by (induction sub f groups rule: upd_group.induct) (auto simp: key_eq_def)

lemma upd_group_present:
  "list_ex (\<lambda>(k, st). key_eq k sub) groups \<Longrightarrow> list_all (\<lambda>(k, st). P st) groups \<Longrightarrow> (\<And>st. P st \<Longrightarrow> P (f st))
   \<Longrightarrow> list_all (\<lambda>(k, st). P st) (upd_group sub f groups)"
  by (induction sub f groups rule: upd_group.induct) auto

lemma upd_group_any:
  "list_all (\<lambda>(k, st). P st) groups \<Longrightarrow> (\<And>st. P st \<Longrightarrow> P (f st))
   \<Longrightarrow> P (f \<lparr>count = 0, total_length = 0\<rparr>)
   \<Longrightarrow> list_all (\<lambda>(k, st). P st) (upd_group sub f groups)"
  by (induction sub f groups rule: upd_group.induct) auto

lemma stats_loop_counts_positive:
  "stats_loop posts groups = Inr result \<Longrightarrow> list_all (\<lambda>(k, st). 1 \<le> count st) groups
   \<Longrightarrow> list_all (\<lambda>(k, st). 1 \<le> count st) result"
proof (induction posts arbitrary: groups)
  case Nil
  then show ?case by simp
next
  case (Cons p ps)
  from Cons.prems(1) obtain sub k body n where
    k: "dict_key sub = Inr k" and
    rec: "stats_loop ps (upd_group k (\<lambda>st. st\<lparr>total_length := total_length st + n\<rparr>)
            (upd_group k (\<lambda>st. st\<lparr>count := count st + 1\<rparr>) groups)) = Inr result"
    by (auto simp: Let_def split: sum.splits)
  let ?g1 = "upd_group k (\<lambda>st. st\<lparr>count := count st + 1\<rparr>) groups"
  have g1: "list_all (\<lambda>(k, st). 1 \<le> count st) ?g1"
    using Cons.prems(2) by (intro upd_group_any) auto
  have "list_all (\<lambda>(k, st). 1 \<le> count st)
          (upd_group k (\<lambda>st. st\<lparr>total_length := total_length st + n\<rparr>) ?g1)"
    by (rule upd_group_present[OF upd_group_has_key g1]) simp
  with Cons.IH rec show ?case by blast
qed

lemma add_averages_error:
  "list_all (\<lambda>(k, st). 1 \<le> count st) groups \<Longrightarrow> add_averages groups \<noteq> Inl e"
  by (induction groups) (auto simp: py_truediv_def split: sum.splits)

text \<open>
  C9. For no posts \<^verbatim>\<open>calculate_stats\<close> returns the empty mapping and does not fail;
  and no call of it, on any list of posts, raises \<^verbatim>\<open>ZeroDivisionError\<close>: the
  corpus mean is taken only of a non-empty list and every group holds at least one post
  when its mean is taken.
\<close>

theorem calculate_stats_empty_no_division:
  "calculate_stats [] = Inr None \<and> (\<forall>posts. calculate_stats posts \<noteq> Inl ZeroDivisionError)"
proof (intro conjI allI)
  show "calculate_stats [] = Inr None"
    by (simp add: calculate_stats_def)
next
  fix posts
  show "calculate_stats posts \<noteq> Inl ZeroDivisionError"
  proof
    assume a: "calculate_stats posts = Inl ZeroDivisionError"
    then have ne: "posts \<noteq> []"
      by (auto simp: calculate_stats_def)
    then have pos: "int (length posts) > 0" by simp
    show False
    proof (cases "sum_body_lengths posts")
      case (Inl e)
      with a ne sum_body_lengths_error[OF Inl] show False
        by (auto simp: calculate_stats_def)
    next
      case (Inr total_len)
      show False
      proof (cases "stats_loop posts []")
        case (Inl e)
        with a ne Inr pos stats_loop_error[OF Inl] show False
          by (auto simp: calculate_stats_def py_truediv_def Let_def)
      next
        case g: (Inr groups)
        have "list_all (\<lambda>(k, st). 1 \<le> count st) groups"
          using stats_loop_counts_positive[OF g] by simp
        then have "add_averages groups \<noteq> Inl ZeroDivisionError"
          by (rule add_averages_error)
        with a ne Inr pos g show False
          by (auto simp: calculate_stats_def py_truediv_def Let_def split: sum.splits)
      qed
    qed
  qed
qed

section \<open>The record processor on a bold placeholder\<close>

text \<open>
  C1. The record \<^verbatim>\<open>{body: "**removed**", title: "Help"}\<close>: the body is normalized
  to \<^verbatim>\<open>removed\<close>, which holds none of the markers, so \<^verbatim>\<open>process_post\<close> returns the
  cleaned record and not \<^verbatim>\<open>None\<close>; the validator applied to the raw record rejects it.
\<close>

theorem process_post_bold_removed:
  "process_post [''body'' \<mapsto> PStr ''**removed**'', ''title'' \<mapsto> PStr ''Help'']
     = Inr (Some [''subreddit'' \<mapsto> PStr ''unknown'', ''title'' \<mapsto> PStr ''Help'',
                  ''body'' \<mapsto> PStr ''removed''])
   \<and> is_valid_post [''body'' \<mapsto> PStr ''**removed**'', ''title'' \<mapsto> PStr ''Help'']
        MIN_BODY_LEN = Inr False"
proof -
  have b: "clean_text (PStr ''**removed**'') = ''removed''"
    by code_simp
  have t: "clean_text (PStr ''Help'') = ''Help''"
    by code_simp
  have v: "is_valid_post [''subreddit'' \<mapsto> PStr ''unknown'', ''title'' \<mapsto> PStr ''Help'',
             ''body'' \<mapsto> PStr ''removed''] MIN_BODY_LEN = Inr True"
    by code_simp
  have raw: "is_valid_post [''body'' \<mapsto> PStr ''**removed**'', ''title'' \<mapsto> PStr ''Help'']
        MIN_BODY_LEN = Inr False"
    by code_simp
  show ?thesis
    by (simp add: process_post_def py_get_def b t v raw)
qed

section \<open>Statistics: the totals\<close>

lemma upd_group_count_sum:
  "sum_list (map (\<lambda>(k, st). count st) (upd_group sub (\<lambda>st. st\<lparr>count := count st + 1\<rparr>) groups))
     = sum_list (map (\<lambda>(k, st). count st) groups) + 1"
  by (induction groups) auto

lemma upd_group_count_length:
  "sum_list (map (\<lambda>(k, st). total_length st) (upd_group sub (\<lambda>st. st\<lparr>count := count st + 1\<rparr>) groups))
     = sum_list (map (\<lambda>(k, st). total_length st) groups)"
  by (induction groups) auto

lemma upd_group_length_sum:
  "sum_list (map (\<lambda>(k, st). total_length st)
       (upd_group sub (\<lambda>st. st\<lparr>total_length := total_length st + n\<rparr>) groups))
     = sum_list (map (\<lambda>(k, st). total_length st) groups) + n"
  by (induction groups) auto

lemma upd_group_length_count:
  "sum_list (map (\<lambda>(k, st). count st)
       (upd_group sub (\<lambda>st. st\<lparr>total_length := total_length st + n\<rparr>) groups))
     = sum_list (map (\<lambda>(k, st). count st) groups)"
  by (induction groups) auto

definition well_formed_for_stats :: "post \<Rightarrow> bool" where
  "well_formed_for_stats p =
     (case p ''body'' of
        None \<Rightarrow> False
      | Some b \<Rightarrow>
          (case py_len b of
             Inl e \<Rightarrow> False
           | Inr n \<Rightarrow>
               (case p ''subreddit'' of
                  None \<Rightarrow> False
                | Some g \<Rightarrow> (case dict_key g of Inl e \<Rightarrow> False | Inr k \<Rightarrow> True))))"

lemma well_formed_body:
  "well_formed_for_stats p \<Longrightarrow> \<exists>b n. p ''body'' = Some b \<and> py_len b = Inr n"
  by (auto simp: well_formed_for_stats_def split: option.splits sum.splits)

lemma sum_body_lengths_ok:
  "list_all well_formed_for_stats posts \<Longrightarrow> \<exists>tot. sum_body_lengths posts = Inr tot"
proof (induction posts)
  case Nil
  then show ?case by simp
next
  case (Cons p ps)
  then obtain rest where "sum_body_lengths ps = Inr rest"
    by auto
  moreover from Cons.prems obtain b n where "p ''body'' = Some b" "py_len b = Inr n"
    using well_formed_body[of p] by auto
  ultimately show ?case
    by (simp add: py_item_def)
qed

lemma stats_loop_totals:
  "list_all well_formed_for_stats posts \<Longrightarrow> sum_body_lengths posts = Inr tot \<Longrightarrow>
   \<exists>result. stats_loop posts groups = Inr result
     \<and> sum_list (map (\<lambda>(k, st). count st) result)
         = sum_list (map (\<lambda>(k, st). count st) groups) + int (length posts)
     \<and> sum_list (map (\<lambda>(k, st). total_length st) result)
         = sum_list (map (\<lambda>(k, st). total_length st) groups) + tot"
proof (induction posts arbitrary: groups tot)
  case Nil
  then show ?case by simp
next
  case (Cons p ps)
  from Cons.prems(1) have p: "well_formed_for_stats p" and
    ps: "list_all well_formed_for_stats ps"
    by simp_all
  from p obtain b n g k where
    b: "p ''body'' = Some b" and n: "py_len b = Inr n" and
    g: "p ''subreddit'' = Some g" and k: "dict_key g = Inr k"
    by (auto simp: well_formed_for_stats_def split: option.splits sum.splits)
  from Cons.prems(2) b n obtain rest where
    rest: "sum_body_lengths ps = Inr rest" and tot: "tot = n + rest"
    by (auto simp: py_item_def split: sum.splits)
  let ?g2 = "upd_group k (\<lambda>st. st\<lparr>total_length := total_length st + n\<rparr>)
               (upd_group k (\<lambda>st. st\<lparr>count := count st + 1\<rparr>) groups)"
  from Cons.IH[OF ps rest, of ?g2] obtain result where
    r: "stats_loop ps ?g2 = Inr result" and
    c: "sum_list (map (\<lambda>(k, st). count st) result)
          = sum_list (map (\<lambda>(k, st). count st) ?g2) + int (length ps)" and
    t: "sum_list (map (\<lambda>(k, st). total_length st) result)
          = sum_list (map (\<lambda>(k, st). total_length st) ?g2) + rest"
    by blast
  have "stats_loop (p # ps) groups = Inr result"
    using b n g k r by (simp add: py_item_def Let_def)
  moreover have "sum_list (map (\<lambda>(k, st). count st) result)
      = sum_list (map (\<lambda>(k, st). count st) groups) + int (length (p # ps))"
    using c by (simp add: upd_group_length_count upd_group_count_sum)
  moreover have "sum_list (map (\<lambda>(k, st). total_length st) result)
      = sum_list (map (\<lambda>(k, st). total_length st) groups) + tot"
    using t tot by (simp add: upd_group_length_sum upd_group_count_length)
  ultimately show ?case by blast
qed

lemma add_averages_ok:
  "list_all (\<lambda>(k, st). 1 \<le> count st) groups \<Longrightarrow>
   \<exists>per_group. add_averages groups = Inr per_group
     \<and> map (\<lambda>(k, st). count st) per_group = map (\<lambda>(k, st). count st) groups
     \<and> map (\<lambda>(k, st). total_length st) per_group = map (\<lambda>(k, st). total_length st) groups"
proof (induction groups)
  case Nil
  then show ?case by simp
next
  case (Cons x xs)
  obtain k st where x: "x = (k, st)" by (cases x)
  from Cons.prems x have pos: "1 \<le> count st" and rest: "list_all (\<lambda>(k, st). 1 \<le> count st) xs"
    by auto
  from Cons.IH[OF rest] obtain others where
    o: "add_averages xs = Inr others" and
    c: "map (\<lambda>(k, st). count st) others = map (\<lambda>(k, st). count st) xs" and
    t: "map (\<lambda>(k, st). total_length st) others = map (\<lambda>(k, st). total_length st) xs"
    by blast
  from pos have "count st \<noteq> 0" by simp
  then show ?case
    using x o c t by (simp add: py_truediv_def)
qed

text \<open>
  C6. For a non-empty list of records that \<^verbatim>\<open>calculate_stats\<close> can process (each has
  a body with a length and a hashable subreddit), the
  statistics are returned, the per-group counts add up to \<^verbatim>\<open>total_posts\<close>, which is
  the number of records, and the per-group \<^verbatim>\<open>total_length\<close> values add up to the sum of
  the body lengths, the total that \<^verbatim>\<open>avg_body_length\<close> is the quotient of
  (as \<^verbatim>\<open>/\<close> computes it).
\<close>

theorem calculate_stats_totals:
  assumes "posts \<noteq> []" and "list_all well_formed_for_stats posts"
  shows "\<exists>st tot. calculate_stats posts = Inr (Some st)
           \<and> sum_body_lengths posts = Inr tot
           \<and> sum_list (map (\<lambda>(k, g). count g) (subreddit_stats st)) = total_posts st
           \<and> total_posts st = int (length posts)
           \<and> sum_list (map (\<lambda>(k, g). total_length g) (subreddit_stats st)) = tot
           \<and> avg_body_length st = PyQuotient tot (total_posts st)"
proof -
  from sum_body_lengths_ok[OF assms(2)] obtain tot where
    tot: "sum_body_lengths posts = Inr tot"
    by blast
  from stats_loop_totals[OF assms(2) tot, of "[]"] obtain groups where
    g: "stats_loop posts [] = Inr groups" and
    c: "sum_list (map (\<lambda>(k, st). count st) groups) = int (length posts)" and
    t: "sum_list (map (\<lambda>(k, st). total_length st) groups) = tot"
    by auto
  have "list_all (\<lambda>(k, st). 1 \<le> count st) groups"
    using stats_loop_counts_positive[OF g] by simp
  from add_averages_ok[OF this] obtain per_group where
    a: "add_averages groups = Inr per_group" and
    pc: "map (\<lambda>(k, st). count st) per_group = map (\<lambda>(k, st). count st) groups" and
    pt: "map (\<lambda>(k, st). total_length st) per_group = map (\<lambda>(k, st). total_length st) groups"
    by blast
  let ?st = "\<lparr>total_posts = int (length posts),
              avg_body_length = PyQuotient tot (int (length posts)),
              subreddit_stats = per_group\<rparr>"
  from assms(1) have pos: "int (length posts) > 0" by simp
  have "calculate_stats posts = Inr (Some ?st)"
    using assms(1) tot g a pos by (simp add: calculate_stats_def py_truediv_def Let_def)
  moreover have "sum_list (map (\<lambda>(k, g). count g) (subreddit_stats ?st)) = total_posts ?st"
    using pc c by simp
  moreover have "sum_list (map (\<lambda>(k, g). total_length g) (subreddit_stats ?st)) = tot"
    using pt t by simp
  ultimately show ?thesis
    using tot by (intro exI[of _ ?st] exI[of _ tot]) simp
qed

theorem calculate_stats_totals_witness:
  "\<exists>st tot.
     calculate_stats
       [[''subreddit'' \<mapsto> PStr ''a'', ''body'' \<mapsto> PStr ''hello''],
        [''subreddit'' \<mapsto> PStr ''b'', ''body'' \<mapsto> PStr ''hi''],
        [''subreddit'' \<mapsto> PStr ''a'', ''body'' \<mapsto> PStr ''abc'']] = Inr (Some st)
     \<and> tot = 10
     \<and> sum_list (map (\<lambda>(k, g). count g) (subreddit_stats st)) = 3
     \<and> total_posts st = 3
     \<and> sum_list (map (\<lambda>(k, g). total_length g) (subreddit_stats st)) = tot
     \<and> avg_body_length st = PyQuotient 10 3"
proof -
  let ?posts = "[[''subreddit'' \<mapsto> PStr ''a'', ''body'' \<mapsto> PStr ''hello''],
        [''subreddit'' \<mapsto> PStr ''b'', ''body'' \<mapsto> PStr ''hi''],
        [''subreddit'' \<mapsto> PStr ''a'', ''body'' \<mapsto> PStr ''abc'']] :: post list"
  have ne: "?posts \<noteq> []" by simp
  have wf: "list_all well_formed_for_stats ?posts"
    by (simp add: well_formed_for_stats_def)
  have tot: "sum_body_lengths ?posts = Inr 10"
    by (simp add: py_item_def)
  from calculate_stats_totals[OF ne wf] tot show ?thesis
    by auto
qed

section \<open>The validator\<close>

lemma code_point_inj: "code_point c = code_point d \<longleftrightarrow> c = d"
  by (simp add: code_point_def)

lemma is_space_code:
  "is_space c \<longleftrightarrow> (9 \<le> code_point c \<and> code_point c \<le> 13) \<or> (28 \<le> code_point c \<and> code_point c \<le> 32)
     \<or> code_point c = 133 \<or> code_point c = 160"
proof -
  have a: "c = CHR 0x85 \<longleftrightarrow> code_point c = 133"
    using code_point_inj[of c "CHR 0x85"] by (simp add: code_point_def)
  have b: "c = CHR 0xA0 \<longleftrightarrow> code_point c = 160"
    using code_point_inj[of c "CHR 0xA0"] by (simp add: code_point_def)
  show ?thesis
    unfolding is_space_def in_range_def a b by (simp add: code_point_def)
qed

lemma code_point_less: "code_point c < 256"
  by (simp add: code_point_def)

lemma is_space_lower_char: "is_space (lower_char c) = is_space c"
proof (cases "lower_char c = c")
  case True
  then show ?thesis by simp
next
  case False
  then have up: "(65 \<le> code_point c \<and> code_point c \<le> 90) \<or> (192 \<le> code_point c \<and> code_point c \<le> 214)
      \<or> (216 \<le> code_point c \<and> code_point c \<le> 222)"
    and low: "lower_char c = char_of (code_point c + 32)"
    by (auto simp: lower_char_def in_range_def code_point_def split: if_splits)
  from up have "code_point (lower_char c) = code_point c + 32"
    unfolding low by (auto simp: code_point_def)
  with up show ?thesis
    by (auto simp: is_space_code)
qed

lemma py_strip_lower: "py_strip (py_lower s) = py_lower (py_strip s)"
proof -
  have comp: "is_space \<circ> lower_char = is_space"
    by (rule ext) (simp add: is_space_lower_char)
  have dw: "dropWhile is_space (map lower_char xs) = map lower_char (dropWhile is_space xs)"
    for xs
    by (simp add: dropWhile_map comp)
  show ?thesis
    by (simp add: py_strip_def py_lower_def dw rev_map)
qed

lemma py_in_iff: "py_in needle s \<longleftrightarrow> (\<exists>u v. s = u @ needle @ v)"
proof (induction s)
  case Nil
  then show ?case by auto
next
  case (Cons c cs)
  show ?case
  proof
    assume "py_in needle (c # cs)"
    then consider "prefix needle (c # cs)" | "py_in needle cs"
      by auto
    then show "\<exists>u v. c # cs = u @ needle @ v"
    proof cases
      case 1
      then obtain v where "c # cs = needle @ v"
        by (auto simp: prefix_def)
      then have "c # cs = [] @ needle @ v" by simp
      then show ?thesis by blast
    next
      case 2
      with Cons.IH obtain u v where "cs = u @ needle @ v" by blast
      then have "c # cs = (c # u) @ needle @ v" by simp
      then show ?thesis by blast
    qed
  next
    assume "\<exists>u v. c # cs = u @ needle @ v"
    then obtain u v where uv: "c # cs = u @ needle @ v" by blast
    show "py_in needle (c # cs)"
    proof (cases u)
      case Nil
      with uv have "prefix needle (c # cs)"
        by (simp add: prefix_def)
      then show ?thesis by simp
    next
      case (Cons d u')
      with uv have "cs = u' @ needle @ v" by simp
      with Cons.IH have "py_in needle cs" by blast
      then show ?thesis by simp
    qed
  qed
qed

lemma dropWhile_keeps_infix:
  assumes "needle \<noteq> []" and "\<not> P (hd needle)"
  shows "dropWhile P (u @ needle @ v) = dropWhile P u @ needle @ v"
proof -
  from assms obtain x xs where needle: "needle = x # xs" and x: "\<not> P x"
    by (cases needle) auto
  show ?thesis
    by (simp add: dropWhile_append needle x)
qed

lemma py_strip_infix: "\<exists>u v. s = u @ py_strip s @ v"
proof -
  have "s = takeWhile is_space s @ dropWhile is_space s"
    by simp
  moreover have "dropWhile is_space s
      = rev (dropWhile is_space (rev (dropWhile is_space s)))
        @ rev (takeWhile is_space (rev (dropWhile is_space s)))"
    by (metis rev_append rev_rev_ident takeWhile_dropWhile_id)
  ultimately have "s = takeWhile is_space s @ py_strip s
      @ rev (takeWhile is_space (rev (dropWhile is_space s)))"
    by (simp add: py_strip_def)
  then show ?thesis by blast
qed

lemma py_in_strip:
  assumes "needle \<noteq> []" and "\<not> is_space (hd needle)" and "\<not> is_space (last needle)"
  shows "py_in needle (py_strip s) \<longleftrightarrow> py_in needle s"
proof
  assume "py_in needle (py_strip s)"
  then obtain u v where "py_strip s = u @ needle @ v"
    by (auto simp: py_in_iff)
  moreover obtain a b where "s = a @ py_strip s @ b"
    using py_strip_infix by blast
  ultimately have "s = (a @ u) @ needle @ (v @ b)"
    by simp
  then show "py_in needle s"
    unfolding py_in_iff by blast
next
  assume "py_in needle s"
  then obtain u v where s: "s = u @ needle @ v"
    by (auto simp: py_in_iff)
  have front: "dropWhile is_space s = dropWhile is_space u @ needle @ v"
    unfolding s using assms(1,2) by (rule dropWhile_keeps_infix)
  have rn: "rev needle \<noteq> []" "\<not> is_space (hd (rev needle))"
    using assms by (simp_all add: hd_rev)
  have "rev (dropWhile is_space s) = rev v @ rev needle @ rev (dropWhile is_space u)"
    by (simp add: front)
  then have "dropWhile is_space (rev (dropWhile is_space s))
      = dropWhile is_space (rev v) @ rev needle @ rev (dropWhile is_space u)"
    using dropWhile_keeps_infix[of "rev needle" is_space "rev v" "rev (dropWhile is_space u)"] rn
    by simp
  then have "py_strip s = dropWhile is_space u @ needle @ rev (dropWhile is_space (rev v))"
    by (simp add: py_strip_def)
  then show "py_in needle (py_strip s)"
    unfolding py_in_iff by blast
qed

lemma marker_in_stripped:
  "list_ex (\<lambda>marker. py_in marker (py_lower (py_strip b))) DELETED_MARKERS
     = list_ex (\<lambda>marker. py_in marker (py_lower b)) DELETED_MARKERS"
proof -
  have "py_in marker (py_lower (py_strip b)) = py_in marker (py_lower b)"
    if "marker \<in> set DELETED_MARKERS" for marker
  proof -
    from that have "marker \<noteq> [] \<and> \<not> is_space (hd marker) \<and> \<not> is_space (last marker)"
      by (auto simp: DELETED_MARKERS_def is_space_def in_range_def code_point_def)
    then show ?thesis
      using py_in_strip[of marker "py_lower b"] by (simp add: py_strip_lower)
  qed
  then show ?thesis
    by (auto simp: list_ex_iff)
qed

lemma is_valid_post_strings:
  assumes "py_get post ''body'' (PStr []) = PStr b" and "py_get post ''title'' (PStr []) = PStr t"
  shows "is_valid_post post min_length
     = Inr (\<not> list_ex (\<lambda>marker. py_in marker (py_lower (py_strip b))) DELETED_MARKERS
            \<and> min_length \<le> int (length (py_strip b)) \<and> py_strip t \<noteq> [])"
  using assms by (auto simp: is_valid_post_def)

text \<open>
  C5. With the default minimum, a record whose body and title are strings (or absent,
  hence empty) is valid exactly when no placeholder marker occurs in its lowercased
  body, its trimmed body has at least 5 characters and its trimmed title is not empty.
\<close>

theorem is_valid_post_default_iff:
  assumes "py_get post ''body'' (PStr []) = PStr b" and "py_get post ''title'' (PStr []) = PStr t"
  shows "is_valid_post post MIN_BODY_LEN
     = Inr (\<not> list_ex (\<lambda>marker. py_in marker (py_lower b)) DELETED_MARKERS
            \<and> 5 \<le> length (py_strip b) \<and> py_strip t \<noteq> [])"
  unfolding is_valid_post_strings[OF assms] marker_in_stripped
  by (simp add: MIN_BODY_LEN_def)

theorem is_valid_post_default_iff_witness:
  "is_valid_post [''body'' \<mapsto> PStr ''hello'', ''title'' \<mapsto> PStr ''T''] MIN_BODY_LEN = Inr True
   \<and> length (py_strip ''hello'') = 5
   \<and> is_valid_post [''body'' \<mapsto> PStr ''hi'', ''title'' \<mapsto> PStr ''T''] MIN_BODY_LEN = Inr False
   \<and> length (py_strip ''hi'') = 2"
proof -
  have hello: "\<not> list_ex (\<lambda>marker. py_in marker (py_lower ''hello'')) DELETED_MARKERS"
    by code_simp
  have len: "length (py_strip ''hello'') = 5" "length (py_strip ''hi'') = 2" "py_strip ''T'' \<noteq> []"
    by code_simp+
  have "is_valid_post [''body'' \<mapsto> PStr ''hello'', ''title'' \<mapsto> PStr ''T''] MIN_BODY_LEN = Inr True"
    using is_valid_post_default_iff[of "[''body'' \<mapsto> PStr ''hello'', ''title'' \<mapsto> PStr ''T'']" "''hello''" "''T''"]
      hello len by (simp add: py_get_def)
  moreover
  have "is_valid_post [''body'' \<mapsto> PStr ''hi'', ''title'' \<mapsto> PStr ''T''] MIN_BODY_LEN = Inr False"
    using is_valid_post_default_iff[of "[''body'' \<mapsto> PStr ''hi'', ''title'' \<mapsto> PStr ''T'']" "''hi''" "''T''"]
      len by (simp add: py_get_def)
  ultimately show ?thesis
    using len by simp
qed

text \<open>
  C7, as stated, is false: a record that fails on its body length alone, and another
  that differs from it in the body only and whose body is long enough, yet is rejected,
  because the longer body holds a placeholder marker.
\<close>

theorem validator_monotonicity_counterexample:
  "is_valid_post [''body'' \<mapsto> PStr ''hi'', ''title'' \<mapsto> PStr ''T''] 5 = Inr False
   \<and> \<not> list_ex (\<lambda>marker. py_in marker (py_lower (py_strip ''hi''))) DELETED_MARKERS
   \<and> py_strip ''T'' \<noteq> []
   \<and> length (py_strip ''hi'') < 5
   \<and> 5 \<le> length (py_strip ''[deleted]'')
   \<and> is_valid_post ([''body'' \<mapsto> PStr ''hi'', ''title'' \<mapsto> PStr ''T''](''body'' \<mapsto> PStr ''[deleted]'')) 5
       = Inr False"
proof -
  have "is_valid_post [''body'' \<mapsto> PStr ''hi'', ''title'' \<mapsto> PStr ''T''] 5 = Inr False"
    by code_simp
  moreover have "\<not> list_ex (\<lambda>marker. py_in marker (py_lower (py_strip ''hi''))) DELETED_MARKERS"
    by code_simp
  moreover have "py_strip ''T'' \<noteq> []" "length (py_strip ''hi'') < 5"
    "5 \<le> length (py_strip ''[deleted]'')"
    by code_simp+
  moreover have "is_valid_post [''body'' \<mapsto> PStr ''[deleted]'', ''title'' \<mapsto> PStr ''T''] 5 = Inr False"
    by code_simp
  moreover have "[''body'' \<mapsto> PStr ''hi'', ''title'' \<mapsto> PStr ''T''](''body'' \<mapsto> PStr ''[deleted]'')
      = [''body'' \<mapsto> PStr ''[deleted]'', ''title'' \<mapsto> PStr ''T'']"
    by (rule ext) simp
  ultimately show ?thesis
    by simp
qed

text \<open>
  C7, amended. Let a record with a string body and a string title fail validation
  although no marker occurs in its body and its trimmed title is not empty, so on its
  body length alone. Every record that differs from it in the body only, whose new body
  holds no marker either and has, trimmed, at least the minimum length, is valid.
\<close>

theorem validator_monotonicity:
  assumes "is_valid_post post min_length = Inr False"
    and "py_get post ''body'' (PStr []) = PStr b"
    and "py_get post ''title'' (PStr []) = PStr t"
    and "\<not> list_ex (\<lambda>marker. py_in marker (py_lower (py_strip b))) DELETED_MARKERS"
    and "py_strip t \<noteq> []"
    and "\<not> list_ex (\<lambda>marker. py_in marker (py_lower (py_strip b'))) DELETED_MARKERS"
    and "min_length \<le> int (length (py_strip b'))"
  shows "int (length (py_strip b)) < min_length
    \<and> is_valid_post (post(''body'' \<mapsto> PStr b')) min_length = Inr True"
proof -
  have short: "int (length (py_strip b)) < min_length"
    using assms(1,4,5) is_valid_post_strings[OF assms(2,3), of min_length] by auto
  have body': "py_get (post(''body'' \<mapsto> PStr b')) ''body'' (PStr []) = PStr b'"
    by (simp add: py_get_def)
  have title': "py_get (post(''body'' \<mapsto> PStr b')) ''title'' (PStr []) = PStr t"
    using assms(3) by (simp add: py_get_def)
  have "is_valid_post (post(''body'' \<mapsto> PStr b')) min_length = Inr True"
    using assms(5,6,7) is_valid_post_strings[OF body' title', of min_length] by simp
  with short show ?thesis
    by simp
qed

theorem validator_monotonicity_witness:
  "is_valid_post [''body'' \<mapsto> PStr ''hi'', ''title'' \<mapsto> PStr ''T''] 5 = Inr False
   \<and> int (length (py_strip ''hi'')) < 5
   \<and> is_valid_post ([''body'' \<mapsto> PStr ''hi'', ''title'' \<mapsto> PStr ''T''](''body'' \<mapsto> PStr ''hi there'')) 5
       = Inr True"
proof -
  let ?post = "[''body'' \<mapsto> PStr ''hi'', ''title'' \<mapsto> PStr ''T''] :: post"
  have fails: "is_valid_post ?post 5 = Inr False"
    by code_simp
  have body: "py_get ?post ''body'' (PStr []) = PStr ''hi''"
    and title: "py_get ?post ''title'' (PStr []) = PStr ''T''"
    by (simp_all add: py_get_def)
  have m: "\<not> list_ex (\<lambda>marker. py_in marker (py_lower (py_strip ''hi''))) DELETED_MARKERS"
    by code_simp
  have t: "py_strip ''T'' \<noteq> []"
    by code_simp
  have m': "\<not> list_ex (\<lambda>marker. py_in marker (py_lower (py_strip ''hi there''))) DELETED_MARKERS"
    by code_simp
  have len: "(5::int) \<le> int (length (py_strip ''hi there''))"
    by code_simp
  from validator_monotonicity[OF fails body title m t m' len] fails show ?thesis
    by simp
qed

text \<open>
  C8, as stated, is false: a body that is present and not a string (here \<^verbatim>\<open>None\<close>)
  makes \<^verbatim>\<open>is_valid_post\<close> raise \<^verbatim>\<open>AttributeError\<close>.
\<close>

theorem is_valid_post_total_counterexample:
  "is_valid_post [''body'' \<mapsto> PNone, ''title'' \<mapsto> PStr ''Help''] MIN_BODY_LEN = Inl AttributeError"
  by code_simp

text \<open>
  C8, amended. For every record whose body and title are each absent or a string,
  \<^verbatim>\<open>is_valid_post\<close> returns a boolean, and the same one as for the record with the
  absent fields set to the empty string.
\<close>

theorem is_valid_post_total_on_strings:
  assumes "post ''body'' = None \<or> (\<exists>s. post ''body'' = Some (PStr s))"
    and "post ''title'' = None \<or> (\<exists>s. post ''title'' = Some (PStr s))"
  shows "\<exists>ok. is_valid_post post min_length = Inr ok
    \<and> is_valid_post (post(''body'' \<mapsto> py_get post ''body'' (PStr []),
                           ''title'' \<mapsto> py_get post ''title'' (PStr []))) min_length = Inr ok"
proof -
  from assms(1) obtain b where b: "py_get post ''body'' (PStr []) = PStr b"
    by (auto simp: py_get_def)
  from assms(2) obtain t where t: "py_get post ''title'' (PStr []) = PStr t"
    by (auto simp: py_get_def)
  let ?filled = "post(''body'' \<mapsto> py_get post ''body'' (PStr []),
                      ''title'' \<mapsto> py_get post ''title'' (PStr []))"
  have b': "py_get ?filled ''body'' (PStr []) = PStr b"
    using b by (simp add: py_get_def)
  have t': "py_get ?filled ''title'' (PStr []) = PStr t"
    using t by (simp add: py_get_def)
  show ?thesis
    unfolding is_valid_post_strings[OF b t] is_valid_post_strings[OF b' t'] by simp
qed

theorem is_valid_post_total_on_strings_witness:
  "\<exists>ok. is_valid_post [''title'' \<mapsto> PStr ''Help''] MIN_BODY_LEN = Inr ok
     \<and> is_valid_post [''title'' \<mapsto> PStr ''Help'', ''body'' \<mapsto> PStr []] MIN_BODY_LEN = Inr ok"
proof -
  let ?post = "[''title'' \<mapsto> PStr ''Help''] :: post"
  have b: "?post ''body'' = None \<or> (\<exists>s. ?post ''body'' = Some (PStr s))"
    by simp
  have t: "?post ''title'' = None \<or> (\<exists>s. ?post ''title'' = Some (PStr s))"
    by simp
  have eq: "?post(''body'' \<mapsto> py_get ?post ''body'' (PStr []),
                 ''title'' \<mapsto> py_get ?post ''title'' (PStr []))
      = [''title'' \<mapsto> PStr ''Help'', ''body'' \<mapsto> PStr []]"
    by (rule ext) (simp add: py_get_def)
  from is_valid_post_total_on_strings[OF b t, of MIN_BODY_LEN] show ?thesis
    unfolding eq .
qed

section \<open>Fingerprints\<close>

text \<open>The fingerprint in the words of the specification: the title lowercased, every
  character that is neither a word character nor whitespace removed, each run of
  whitespace collapsed to one space, the result trimmed. \<open>collapse_runs\<close> carries
  whether the previous character was whitespace.\<close>

fun collapse_runs :: "bool \<Rightarrow> string \<Rightarrow> string" where
  "collapse_runs in_run [] = []"
| "collapse_runs in_run (c # cs) =
     (if is_space c then (if in_run then collapse_runs True cs else CHR '' '' # collapse_runs True cs)
      else c # collapse_runs False cs)"

definition fingerprint_spec :: "string \<Rightarrow> string" where
  "fingerprint_spec title =
     py_strip (collapse_runs False (filter (\<lambda>c. is_word c \<or> is_space c) (map lower_char title)))"

definition has_string_title :: "post \<Rightarrow> bool" where
  "has_string_title p = (case p ''title'' of Some (PStr t) \<Rightarrow> True | _ \<Rightarrow> False)"

text \<open>The records \<^verbatim>\<open>deduplicate_posts\<close> keeps, as a function of the fingerprints seen
  before: a record is kept when its fingerprint is new.\<close>

fun kept :: "string set \<Rightarrow> post list \<Rightarrow> post list" where
  "kept seen [] = []"
| "kept seen (p # ps) =
     (case post_fingerprint p of
        Inl e \<Rightarrow> []
      | Inr k \<Rightarrow> if k \<in> seen then kept seen ps else p # kept (insert k seen) ps)"

definition wordless_title :: "post \<Rightarrow> bool" where
  "wordless_title p =
     (case p ''title'' of Some (PStr t) \<Rightarrow> list_all (\<lambda>c. \<not> is_word c) t | _ \<Rightarrow> False)"

lemma re_sub_punct: "re_sub m_punct s = filter (\<lambda>c. is_word c \<or> is_space c) s"
  by (induction s) (auto simp: m_punct_def)

lemma re_sub_spaces_Cons:
  "re_sub m_spaces (c # cs) =
     (if is_space c then CHR '' '' # re_sub m_spaces (dropWhile is_space cs)
      else c # re_sub m_spaces cs)"
  by (simp add: m_spaces_def length_dropWhile_le)

lemma collapse_runs_in_run:
  "collapse_runs True s = collapse_runs False (dropWhile is_space s)"
  by (induction s) auto

lemma re_sub_spaces: "re_sub m_spaces s = collapse_runs False s"
proof (induction s rule: length_induct)
  case (1 s)
  show ?case
  proof (cases s)
    case Nil
    then show ?thesis by simp
  next
    case (Cons c cs)
    have "length (dropWhile is_space cs) < length s"
      using Cons length_dropWhile_le[of is_space cs] by simp
    with 1 have run: "re_sub m_spaces (dropWhile is_space cs)
        = collapse_runs False (dropWhile is_space cs)"
      by blast
    from 1 Cons have tail: "re_sub m_spaces cs = collapse_runs False cs"
      by simp
    show ?thesis
      unfolding Cons re_sub_spaces_Cons
      by (simp add: run tail collapse_runs_in_run)
  qed
qed

lemma normalize_title_spec: "normalize_title (PStr t) = Inr (fingerprint_spec t)"
  by (simp add: normalize_title_def fingerprint_spec_def re_sub_punct re_sub_spaces py_lower_def)

lemma post_fingerprint_string:
  "p ''title'' = Some (PStr t) \<Longrightarrow> post_fingerprint p = Inr (fingerprint_spec t)"
  by (simp add: post_fingerprint_def py_item_def normalize_title_spec)

lemma has_string_title_fingerprint:
  "has_string_title p \<Longrightarrow> \<exists>k. post_fingerprint p = Inr k"
  by (auto simp: has_string_title_def post_fingerprint_string split: option.splits pyval.splits)

section \<open>The deduplicator\<close>

lemma dedup_loop_kept:
  "list_all has_string_title posts \<Longrightarrow>
   dedup_loop posts seen unique dups
     = Inr (unique @ kept seen posts,
            dups + int (length posts) - int (length (kept seen posts)))"
proof (induction posts arbitrary: seen unique dups)
  case Nil
  then show ?case by simp
next
  case (Cons p ps)
  from Cons.prems obtain k where k: "post_fingerprint p = Inr k"
    using has_string_title_fingerprint[of p] by auto
  from Cons.prems have ps: "list_all has_string_title ps"
    by simp
  show ?case
    using k Cons.IH[OF ps] by simp
qed

lemma filter_shift:
  "map (\<lambda>i. (p # ps) ! i) (filter Q (map Suc xs)) = map (\<lambda>i. ps ! i) (filter (\<lambda>i. Q (Suc i)) xs)"
  by (induction xs) auto

lemma kept_index:
  "list_all has_string_title ps \<Longrightarrow>
   kept seen ps =
     map (\<lambda>i. ps ! i)
       (filter (\<lambda>i. post_fingerprint (ps ! i) \<notin> Inr ` seen
                   \<and> (\<forall>j<i. post_fingerprint (ps ! j) \<noteq> post_fingerprint (ps ! i)))
          [0..<length ps])"
proof (induction ps arbitrary: seen)
  case Nil
  then show ?case by simp
next
  case (Cons p ps)
  from Cons.prems obtain k where k: "post_fingerprint p = Inr k"
    using has_string_title_fingerprint[of p] by auto
  from Cons.prems have ps: "list_all has_string_title ps"
    by simp
  define P where "P = (\<lambda>seen qs i. post_fingerprint (qs ! i) \<notin> Inr ` seen
                   \<and> (\<forall>j<i. post_fingerprint (qs ! j) \<noteq> post_fingerprint (qs ! i)))"
  define seen' where "seen' = (if k \<in> seen then seen else insert k seen)"
  have IH: "kept s ps = map (\<lambda>i. ps ! i) (filter (P s ps) [0..<length ps])" for s
    unfolding P_def by (rule Cons.IH[OF ps])
  have upt: "[0..<length (p # ps)] = 0 # map Suc [0..<length ps]"
    by (simp add: upt_conv_Cons map_Suc_upt del: upt_Suc)
  have shift: "P seen (p # ps) (Suc i) \<longleftrightarrow> P seen' ps i" for i
    using k by (auto simp: P_def seen'_def All_less_Suc2 image_iff)
  have zero: "P seen (p # ps) 0 \<longleftrightarrow> k \<notin> seen"
    using k by (auto simp: P_def)
  have filt: "filter (\<lambda>i. P seen (p # ps) (Suc i)) xs = filter (P seen' ps) xs" for xs
    by (rule filter_cong[OF refl]) (rule shift)
  have tail: "map (\<lambda>i. (p # ps) ! i) (filter (P seen (p # ps)) (map Suc [0..<length ps]))
      = kept seen' ps"
    unfolding filter_shift filt IH ..
  have "kept seen (p # ps)
      = map (\<lambda>i. (p # ps) ! i) (filter (P seen (p # ps)) [0..<length (p # ps)])"
    unfolding upt using k zero tail by (simp add: seen'_def)
  then show ?case
    unfolding P_def .
qed

text \<open>
  C3. For every list of records with string titles (the cleaned records),
  \<^verbatim>\<open>deduplicate_posts\<close> returns the records at the positions whose fingerprint does not
  occur at an earlier position, in their original order, and a count of removed
  records with \<^verbatim>\<open>len(output) + removedCount == len(input)\<close>.
\<close>

theorem deduplicate_posts_first_occurrences:
  assumes "list_all has_string_title posts"
  shows "\<exists>unique dups. deduplicate_posts posts = Inr (unique, dups)
    \<and> unique = map (\<lambda>i. posts ! i)
        (filter (\<lambda>i. \<forall>j<i. post_fingerprint (posts ! j) \<noteq> post_fingerprint (posts ! i))
           [0..<length posts])
    \<and> int (length unique) + dups = int (length posts)"
  unfolding deduplicate_posts_def dedup_loop_kept[OF assms] kept_index[OF assms]
  by simp

theorem deduplicate_posts_first_occurrences_witness:
  "deduplicate_posts [[''title'' \<mapsto> PStr ''My Day!''], [''title'' \<mapsto> PStr ''Other''],
                      [''title'' \<mapsto> PStr ''my day'']]
     = Inr ([[''title'' \<mapsto> PStr ''My Day!''], [''title'' \<mapsto> PStr ''Other'']], 1)
   \<and> (\<exists>unique dups.
        deduplicate_posts [[''title'' \<mapsto> PStr ''My Day!''], [''title'' \<mapsto> PStr ''Other''],
                           [''title'' \<mapsto> PStr ''my day'']] = Inr (unique, dups)
        \<and> int (length unique) + dups = 3)"
proof -
  let ?posts = "[[''title'' \<mapsto> PStr ''My Day!''], [''title'' \<mapsto> PStr ''Other''],
                 [''title'' \<mapsto> PStr ''my day'']] :: post list"
  have wf: "list_all has_string_title ?posts"
    by (simp add: has_string_title_def)
  have f: "fingerprint_spec ''My Day!'' = ''my day''" "fingerprint_spec ''Other'' = ''other''"
    "fingerprint_spec ''my day'' = ''my day''"
    by code_simp+
  have run: "deduplicate_posts ?posts
      = Inr ([[''title'' \<mapsto> PStr ''My Day!''], [''title'' \<mapsto> PStr ''Other'']], 1)"
    by (simp add: deduplicate_posts_def post_fingerprint_string f)
  from deduplicate_posts_first_occurrences[OF wf] obtain unique dups where
    "deduplicate_posts ?posts = Inr (unique, dups)" "int (length unique) + dups = 3"
    by auto
  with run show ?thesis
    by blast
qed

text \<open>
  C4. The code's fingerprint of a title is the specification's: the title lowercased,
  the characters that are neither word characters nor whitespace removed, whitespace
  runs collapsed to one space, trimmed. Of two records the second is dropped, with one
  duplicate counted, exactly when these fingerprints agree; \<^verbatim>\<open>My Day!\<close> and
  \<^verbatim>\<open>my day\<close> both have the fingerprint \<^verbatim>\<open>my day\<close>.
\<close>

theorem duplicates_iff_fingerprints_agree:
  assumes "p ''title'' = Some (PStr t1)" and "q ''title'' = Some (PStr t2)"
  shows "post_fingerprint p = Inr (fingerprint_spec t1)
    \<and> post_fingerprint q = Inr (fingerprint_spec t2)
    \<and> deduplicate_posts [p, q]
        = Inr (if fingerprint_spec t1 = fingerprint_spec t2 then ([p], 1) else ([p, q], 0))
    \<and> fingerprint_spec ''My Day!'' = ''my day'' \<and> fingerprint_spec ''my day'' = ''my day''"
proof -
  have "fingerprint_spec ''My Day!'' = ''my day''" "fingerprint_spec ''my day'' = ''my day''"
    by code_simp+
  then show ?thesis
    using assms by (simp add: deduplicate_posts_def post_fingerprint_string)
qed

theorem duplicates_iff_fingerprints_agree_witness:
  "deduplicate_posts [[''title'' \<mapsto> PStr ''My Day!''], [''title'' \<mapsto> PStr ''my day'']]
     = Inr ([[''title'' \<mapsto> PStr ''My Day!'']], 1)
   \<and> post_fingerprint [''title'' \<mapsto> PStr ''My Day!''] = Inr ''my day''
   \<and> post_fingerprint [''title'' \<mapsto> PStr ''my day''] = Inr ''my day''"
  using duplicates_iff_fingerprints_agree[of "[''title'' \<mapsto> PStr ''My Day!'']" "''My Day!''"
      "[''title'' \<mapsto> PStr ''my day'']" "''my day''"]
  by simp

section \<open>Titles without word characters\<close>

lemma is_word_code:
  "is_word c \<longleftrightarrow>
     (97 \<le> code_point c \<and> code_point c \<le> 122) \<or> (65 \<le> code_point c \<and> code_point c \<le> 90)
     \<or> (48 \<le> code_point c \<and> code_point c \<le> 57) \<or> code_point c = 95
     \<or> code_point c = 170 \<or> code_point c = 181 \<or> code_point c = 186
     \<or> (192 \<le> code_point c \<and> code_point c \<le> 214) \<or> (216 \<le> code_point c \<and> code_point c \<le> 246)
     \<or> (248 \<le> code_point c \<and> code_point c \<le> 255)
     \<or> code_point c = 178 \<or> code_point c = 179 \<or> code_point c = 185
     \<or> (188 \<le> code_point c \<and> code_point c \<le> 190)"
proof -
  have e: "c = CHR ''_'' \<longleftrightarrow> code_point c = 95" "c = CHR 0xAA \<longleftrightarrow> code_point c = 170"
    "c = CHR 0xB5 \<longleftrightarrow> code_point c = 181" "c = CHR 0xBA \<longleftrightarrow> code_point c = 186"
    "c = CHR 0xB2 \<longleftrightarrow> code_point c = 178" "c = CHR 0xB3 \<longleftrightarrow> code_point c = 179"
    "c = CHR 0xB9 \<longleftrightarrow> code_point c = 185"
    using code_point_inj[of c "CHR ''_''"] code_point_inj[of c "CHR 0xAA"]
      code_point_inj[of c "CHR 0xB5"] code_point_inj[of c "CHR 0xBA"]
      code_point_inj[of c "CHR 0xB2"] code_point_inj[of c "CHR 0xB3"]
      code_point_inj[of c "CHR 0xB9"]
    by (simp_all add: code_point_def)
  show ?thesis
    unfolding is_word_def in_range_def e by (simp add: code_point_def)
qed

lemma word_not_space: "is_word c \<Longrightarrow> \<not> is_space c"
  unfolding is_word_code is_space_code by arith

lemma is_word_lower_char: "is_word (lower_char c) = is_word c"
proof (cases "lower_char c = c")
  case True
  then show ?thesis by simp
next
  case False
  then have up: "(65 \<le> code_point c \<and> code_point c \<le> 90) \<or> (192 \<le> code_point c \<and> code_point c \<le> 214)
      \<or> (216 \<le> code_point c \<and> code_point c \<le> 222)"
    and low: "lower_char c = char_of (code_point c + 32)"
    by (auto simp: lower_char_def in_range_def code_point_def split: if_splits)
  from up have cp: "code_point (lower_char c) = code_point c + 32"
    unfolding low by (auto simp: code_point_def)
  from up consider
      (ascii) "65 \<le> code_point c" "code_point c \<le> 90"
    | (latin1) "192 \<le> code_point c" "code_point c \<le> 214"
    | (latin2) "216 \<le> code_point c" "code_point c \<le> 222"
    by blast
  then have "is_word c \<and> is_word (lower_char c)"
  proof cases
    case ascii
    have "is_word c"
      unfolding is_word_code using ascii by simp
    moreover have "97 \<le> code_point (lower_char c) \<and> code_point (lower_char c) \<le> 122"
      using ascii cp by simp
    then have "is_word (lower_char c)"
      unfolding is_word_code by blast
    ultimately show ?thesis ..
  next
    case latin1
    have "is_word c"
      unfolding is_word_code using latin1 by simp
    moreover have "216 \<le> code_point (lower_char c) \<and> code_point (lower_char c) \<le> 246"
      using latin1 cp by simp
    then have "is_word (lower_char c)"
      unfolding is_word_code by blast
    ultimately show ?thesis ..
  next
    case latin2
    have "216 \<le> code_point c \<and> code_point c \<le> 246"
      using latin2 by simp
    then have "is_word c"
      unfolding is_word_code by blast
    moreover have "248 \<le> code_point (lower_char c) \<and> code_point (lower_char c) \<le> 255"
      using latin2 cp by simp
    then have "is_word (lower_char c)"
      unfolding is_word_code by blast
    ultimately show ?thesis ..
  qed
  then show ?thesis
    by simp
qed

lemma collapse_runs_spaces:
  "list_all is_space s \<Longrightarrow> list_all is_space (collapse_runs in_run s)"
  by (induction s arbitrary: in_run) (auto simp: is_space_def in_range_def code_point_def)

lemma dropWhile_all: "list_all P s \<Longrightarrow> dropWhile P s = []"
  by (induction s) auto

lemma py_strip_spaces: "list_all is_space s \<Longrightarrow> py_strip s = []"
  by (simp add: py_strip_def dropWhile_all)

lemma collapse_runs_keeps:
  "c \<in> set s \<Longrightarrow> \<not> is_space c \<Longrightarrow> c \<in> set (collapse_runs in_run s)"
  by (induction s arbitrary: in_run) auto

lemma dropWhile_keeps: "c \<in> set s \<Longrightarrow> \<not> P c \<Longrightarrow> c \<in> set (dropWhile P s)"
  by (induction s) auto

lemma py_strip_keeps: "c \<in> set s \<Longrightarrow> \<not> is_space c \<Longrightarrow> c \<in> set (py_strip s)"
  by (simp add: py_strip_def dropWhile_keeps)

lemma fingerprint_spec_empty_iff:
  "fingerprint_spec t = [] \<longleftrightarrow> list_all (\<lambda>c. \<not> is_word c) t"
proof
  assume nw: "list_all (\<lambda>c. \<not> is_word c) t"
  have "list_all is_space (filter (\<lambda>c. is_word c \<or> is_space c) (map lower_char t))"
    using nw by (auto simp: list_all_iff is_word_lower_char)
  then show "fingerprint_spec t = []"
    unfolding fingerprint_spec_def by (intro py_strip_spaces collapse_runs_spaces)
next
  assume e: "fingerprint_spec t = []"
  show "list_all (\<lambda>c. \<not> is_word c) t"
  proof (rule ccontr)
    assume "\<not> list_all (\<lambda>c. \<not> is_word c) t"
    then obtain c where c: "c \<in> set t" "is_word c"
      by (auto simp: list_all_iff)
    let ?w = "lower_char c"
    have w: "is_word ?w" "\<not> is_space ?w"
      using c(2) by (simp_all add: is_word_lower_char word_not_space)
    have "?w \<in> set (filter (\<lambda>c. is_word c \<or> is_space c) (map lower_char t))"
      using c(1) w(1) by auto
    then have "?w \<in> set (fingerprint_spec t)"
      unfolding fingerprint_spec_def using w(2)
      by (intro py_strip_keeps collapse_runs_keeps)
    with e show False
      by simp
  qed
qed

lemma wordless_fingerprint:
  "has_string_title p \<Longrightarrow> post_fingerprint p = Inr [] \<longleftrightarrow> wordless_title p"
  by (auto simp: has_string_title_def wordless_title_def post_fingerprint_string
      fingerprint_spec_empty_iff split: option.splits pyval.splits)

lemma kept_wordless:
  "list_all has_string_title ps \<Longrightarrow>
   filter wordless_title (kept seen ps)
     = (if [] \<in> seen then [] else take 1 (filter wordless_title ps))"
proof (induction ps arbitrary: seen)
  case Nil
  then show ?case by simp
next
  case (Cons p ps)
  from Cons.prems have p: "has_string_title p" and ps: "list_all has_string_title ps"
    by simp_all
  from p obtain k where k: "post_fingerprint p = Inr k"
    using has_string_title_fingerprint by blast
  have w: "wordless_title p \<longleftrightarrow> k = []"
    using wordless_fingerprint[OF p] k by auto
  show ?case
    using k w by (auto simp: Cons.IH[OF ps])
qed

lemma kept_filter_length: "length (filter Q (kept seen ps)) \<le> length (filter Q ps)"
proof (induction ps arbitrary: seen)
  case Nil
  then show ?case by simp
next
  case (Cons p ps)
  show ?case
    using Cons.IH[of seen] Cons.IH[of "insert k seen" for k]
    by (auto split: sum.splits intro: le_SucI)
qed

text \<open>
  C10. A title without word characters has the empty fingerprint. Hence in every list
  of records with string titles \<^verbatim>\<open>deduplicate_posts\<close> keeps, of the records whose
  titles have no word character, the first one only, and counts at least every later
  one as a duplicate.
\<close>

theorem wordless_titles_collide:
  assumes "list_all has_string_title posts" and "list_all (\<lambda>c. \<not> is_word c) t"
  shows "normalize_title (PStr t) = Inr []
    \<and> (\<exists>unique dups. deduplicate_posts posts = Inr (unique, dups)
         \<and> filter wordless_title unique = take 1 (filter wordless_title posts)
         \<and> int (length (filter wordless_title posts)) - 1 \<le> dups)"
proof -
  have fp: "normalize_title (PStr t) = Inr []"
    using assms(2) by (simp add: normalize_title_spec fingerprint_spec_empty_iff)
  let ?unique = "kept {} posts"
  let ?dups = "int (length posts) - int (length ?unique)"
  let ?W = wordless_title
  have run: "deduplicate_posts posts = Inr (?unique, ?dups)"
    unfolding deduplicate_posts_def dedup_loop_kept[OF assms(1)] by simp
  have first: "filter ?W ?unique = take 1 (filter ?W posts)"
    using kept_wordless[OF assms(1), of "{}"] by simp
  have "length ?unique = length (filter ?W ?unique) + length (filter (\<lambda>p. \<not> ?W p) ?unique)"
    by (rule sum_length_filter_compl[symmetric])
  moreover have "length (filter ?W ?unique) \<le> 1"
    unfolding first by simp
  moreover have "length (filter (\<lambda>p. \<not> ?W p) ?unique) \<le> length (filter (\<lambda>p. \<not> ?W p) posts)"
    by (rule kept_filter_length)
  moreover have "length posts = length (filter ?W posts) + length (filter (\<lambda>p. \<not> ?W p) posts)"
    by (rule sum_length_filter_compl[symmetric])
  ultimately have "int (length (filter ?W posts)) - 1 \<le> ?dups"
    by linarith
  with fp run first show ?thesis
    by blast
qed

theorem wordless_titles_collide_witness:
  "normalize_title (PStr ''!!!'') = Inr [] \<and> normalize_title (PStr ''???'') = Inr []
   \<and> deduplicate_posts [[''title'' \<mapsto> PStr ''!!!''], [''title'' \<mapsto> PStr ''???'']]
       = Inr ([[''title'' \<mapsto> PStr ''!!!'']], 1)"
proof -
  let ?posts = "[[''title'' \<mapsto> PStr ''!!!''], [''title'' \<mapsto> PStr ''???'']] :: post list"
  have wf: "list_all has_string_title ?posts"
    by (simp add: has_string_title_def)
  have nw: "list_all (\<lambda>c. \<not> is_word c) ''!!!''" "list_all (\<lambda>c. \<not> is_word c) ''???''"
    by code_simp+
  have w: "filter wordless_title ?posts = ?posts"
    using nw by (simp add: wordless_title_def)
  from wordless_titles_collide[OF wf nw(1)] obtain unique dups where
    a: "normalize_title (PStr ''!!!'') = Inr []" and
    run: "deduplicate_posts ?posts = Inr (unique, dups)" and
    first: "filter wordless_title unique = take 1 (filter wordless_title ?posts)"
    by blast
  have b: "normalize_title (PStr ''???'') = Inr []"
    using wordless_titles_collide[OF wf nw(2)] by blast
  have "deduplicate_posts ?posts = Inr ([[''title'' \<mapsto> PStr ''!!!'']], 1)"
    using a b by (simp add: deduplicate_posts_def post_fingerprint_def py_item_def)
  with a b show ?thesis
    by simp
qed

section \<open>Substitution: general facts\<close>




















section \<open>The URL patterns as matchers\<close>










lemma literal_s: "literal ''s'' t = (case t of [] \<Rightarrow> None | c # r \<Rightarrow> if c = CHR ''s'' then Some r else None)"
  by (cases t) auto









section \<open>The whitespace patterns as matchers\<close>




lemma m_blanks_None_iff: "m_blanks s = None \<longleftrightarrow> (\<forall>c cs. s = c # cs \<longrightarrow> \<not> blank c)"
  by (cases s) (auto simp: m_blanks_def)






























section \<open>The normalizer applied twice\<close>

















end
